theory Spec2Isabelle
  imports Complex_Main "HOL-Library.Word"
begin

section \<open>Values exchanged on the data channel\<close>

text \<open>
  The embedding follows \<^verbatim>\<open>js/webrtc.js\<close> (class \<^verbatim>\<open>WebRTCClient\<close>) and the
  \<^verbatim>\<open>FirebaseSignaling\<close> class. A byte buffer is a list of octets. A JavaScript value
  obtained from \<^verbatim>\<open>JSON.parse\<close> is a \<open>json\<close>; a \<open>json option\<close> is a JavaScript value
  that may also be \<^verbatim>\<open>undefined\<close> (\<open>None\<close>). An object is given by its list of entries,
  and a property read takes the first entry of that name. Numbers are kept exact
  (no IEEE rounding); the quotients the code computes are quotients of reals.
\<close>

type_synonym bytes = "8 word list"

datatype json =
    JNull
  | JBool bool
  | JNum real
  | JStr string
  | JArr "json list"
  | JObj "(string \<times> json) list"

datatype error =
    DataChannelNotOpen   \<comment> \<open>\<^verbatim>\<open>new Error('DataChannel not open')\<close>\<close>
  | InvalidStateError    \<comment> \<open>\<^verbatim>\<open>send\<close> on a channel that is not open\<close>
  | TypeError            \<comment> \<open>property read on \<^verbatim>\<open>null\<close> or \<^verbatim>\<open>undefined\<close>\<close>
  | SyntaxError          \<comment> \<open>\<^verbatim>\<open>JSON.parse\<close> on a string that is not JSON\<close>

text \<open>
  A string on the wire is represented by what \<^verbatim>\<open>JSON.parse\<close> makes of it: the JSON value
  it denotes, or nothing when it is not JSON. \<^verbatim>\<open>JSON.stringify\<close> and \<^verbatim>\<open>JSON.parse\<close> are the
  platform's functions; that parsing a stringified value gives the value back is built
  into this representation.
\<close>

datatype jsstring = JSON_text json | Not_JSON

definition JSON_stringify :: "json \<Rightarrow> jsstring" where
  "JSON_stringify v = JSON_text v"

definition JSON_parse :: "jsstring \<Rightarrow> error + json" where
  "JSON_parse s = (case s of JSON_text v \<Rightarrow> Inr v | Not_JSON \<Rightarrow> Inl SyntaxError)"

text \<open>What \<^verbatim>\<open>event.data\<close> of a data-channel message can be.\<close>

datatype data = Text jsstring | ArrayBuffer bytes | BlobData bytes

text \<open>
  \<open>truthy v\<close> is JavaScript's \<^verbatim>\<open>if (v)\<close>. \<open>getProp v k\<close> is the property read \<^verbatim>\<open>v.k\<close>,
  for the names the code reads (\<^verbatim>\<open>header\<close>, \<^verbatim>\<open>complete\<close>, \<^verbatim>\<open>type\<close>, \<^verbatim>\<open>filename\<close>,
  \<^verbatim>\<open>totalSize\<close>, \<^verbatim>\<open>totalChunks\<close>): it throws on \<^verbatim>\<open>null\<close> and \<^verbatim>\<open>undefined\<close>, looks the name up
  in an object and is \<^verbatim>\<open>undefined\<close> on every other value.
\<close>

fun truthy :: "json option \<Rightarrow> bool" where
  "truthy None = False"
| "truthy (Some JNull) = False"
| "truthy (Some (JBool b)) = b"
| "truthy (Some (JNum x)) = (x \<noteq> 0)"
| "truthy (Some (JStr s)) = (s \<noteq> [])"
| "truthy (Some (JArr xs)) = True"
| "truthy (Some (JObj kvs)) = True"

fun getProp :: "json option \<Rightarrow> string \<Rightarrow> error + json option" where
  "getProp None k = Inl TypeError"
| "getProp (Some JNull) k = Inl TypeError"
| "getProp (Some (JObj kvs)) k = Inr (map_of kvs k)"
| "getProp (Some v) k = Inr None"

text \<open>Sequencing of computations that may throw.\<close>

definition andThen :: "error + 'a \<Rightarrow> ('a \<Rightarrow> error + 'b) \<Rightarrow> error + 'b" where
  "andThen r f = (case r of Inl e \<Rightarrow> Inl e | Inr x \<Rightarrow> f x)"

section \<open>The client\<close>

datatype RTCDataChannelState = Connecting | Open | Closing | Closed

record RTCDataChannel =
  readyState :: RTCDataChannelState
  bufferedAmount :: nat

record Blob =
  content :: bytes
  mimeType :: string

record PendingFile =
  type :: "json option"
  filename :: "json option"
  totalSize :: "json option"
  totalChunks :: "json option"
  chunks :: "bytes list"
  receivedSize :: nat

text \<open>
  A callback slot (\<^verbatim>\<open>onProgress\<close>, \<^verbatim>\<open>onError\<close>, ...) is modelled by whether a callback is
  registered; calling it is an event of the trace. \<open>connectionTimeout\<close> is the handle of
  the armed timer, if any. The peer connection and the signaling object are outside the
  model, and so is console output.
\<close>

record WebRTCClient =
  dataChannel :: "RTCDataChannel option"
  onConnected :: bool
  onDisconnected :: bool
  onProgress :: bool
  onError :: bool
  onFileReceived :: bool
  isConnected :: bool
  connectionTimeout :: "nat option"
  pendingFile :: "PendingFile option"

text \<open>
  The observable effects. \<open>Send d g\<close> is \<^verbatim>\<open>dataChannel.send(d)\<close>, with \<open>g\<close> the value
  \<^verbatim>\<open>bufferedAmount\<close> had when \<^verbatim>\<open>send\<close> was called. \<open>OnProgress p\<close> is the sender's
  \<^verbatim>\<open>onProgress(p)\<close>. \<open>OnProgressRatio r t\<close> is the receiver's
  \<^verbatim>\<open>onProgress(receivedSize / totalSize)\<close> with its two operands: \<^verbatim>\<open>totalSize\<close> comes
  unchecked from the header, so the quotient is not evaluated. \<open>ReadBlob b\<close> is the start
  of \<^verbatim>\<open>data.arrayBuffer()\<close>. \<open>Download\<close> is the click on the generated link.
  \<open>ErrorLogged\<close> is the \<^verbatim>\<open>catch\<close> of \<^verbatim>\<open>handleMessage\<close>.
\<close>

datatype event =
    Send data nat
  | OnProgress real
  | OnProgressRatio nat "json option"
  | ReadBlob bytes
  | Download "json option" Blob
  | OnFileReceived "json option" "json option" Blob
  | OnConnected
  | OnError
  | ClearTimeout nat
  | Alert
  | ErrorLogged error

definition CHUNK_SIZE :: nat where
  "CHUNK_SIZE = 64 * 1024"

section \<open>Receiving: \<^verbatim>\<open>handleMessage\<close> and \<^verbatim>\<open>finalizeFile\<close>\<close>

text \<open>\<^verbatim>\<open>new Blob(parts, { type: ty })\<close>: the parts one after the other.\<close>

definition newBlob :: "bytes list \<Rightarrow> string \<Rightarrow> Blob" where
  "newBlob parts ty = \<lparr> content = concat parts, mimeType = ty \<rparr>"

definition finalizeFile :: "WebRTCClient \<Rightarrow> event list \<times> WebRTCClient" where
  "finalizeFile c =
     (case pendingFile c of
        None \<Rightarrow> ([], c)
      | Some p \<Rightarrow>
          (let blob = newBlob (chunks p)
                        (if type p = Some (JStr ''pdf'') then ''application/pdf''
                         else ''application/octet-stream'')
           in ([Download (filename p) blob] @
               (if onFileReceived c then [OnFileReceived (type p) (filename p) blob] else []),
               c\<lparr>pendingFile := None\<rparr>)))"

text \<open>The body of the \<^verbatim>\<open>try\<close> block of \<^verbatim>\<open>handleMessage\<close>.\<close>

definition handleMessage_body :: "WebRTCClient \<Rightarrow> data \<Rightarrow> error + (event list \<times> WebRTCClient)" where
  "handleMessage_body c d =
     (case d of
        Text s \<Rightarrow>
          andThen (JSON_parse s) (\<lambda>msg.
          andThen (getProp (Some msg) ''header'') (\<lambda>header.
            if truthy header then
              andThen (getProp header ''type'') (\<lambda>ty.
              andThen (getProp header ''filename'') (\<lambda>fn.
              andThen (getProp header ''totalSize'') (\<lambda>ts.
              andThen (getProp header ''totalChunks'') (\<lambda>tc.
                Inr ([], c\<lparr>pendingFile := Some \<lparr> type = ty, filename = fn, totalSize = ts,
                                                   totalChunks = tc, chunks = [],
                                                   receivedSize = 0 \<rparr>\<rparr>)))))
            else
              andThen (getProp (Some msg) ''complete'') (\<lambda>complete.
                if truthy complete \<and> pendingFile c \<noteq> None then Inr (finalizeFile c)
                else Inr ([], c))))
      | ArrayBuffer b \<Rightarrow>
          (case pendingFile c of
             None \<Rightarrow> Inr ([], c)
           | Some p \<Rightarrow>
               (let p' = p\<lparr>chunks := chunks p @ [b], receivedSize := receivedSize p + length b\<rparr>
                in Inr ((if onProgress c then [OnProgressRatio (receivedSize p') (totalSize p')]
                         else []),
                        c\<lparr>pendingFile := Some p'\<rparr>)))
      | BlobData b \<Rightarrow>
          (case pendingFile c of
             None \<Rightarrow> Inr ([], c)
           | Some p \<Rightarrow> Inr ([ReadBlob b], c)))"

definition handleMessage :: "WebRTCClient \<Rightarrow> data \<Rightarrow> event list \<times> WebRTCClient" where
  "handleMessage c d =
     (case handleMessage_body c d of
        Inl e \<Rightarrow> ([ErrorLogged e], c)
      | Inr r \<Rightarrow> r)"

text \<open>
  The continuation of \<^verbatim>\<open>data.arrayBuffer().then(...)\<close>: it runs when the blob has been
  read, on the pending file of that moment.
\<close>

definition blobLoaded :: "WebRTCClient \<Rightarrow> bytes \<Rightarrow> error + (event list \<times> WebRTCClient)" where
  "blobLoaded c ab =
     (case pendingFile c of
        None \<Rightarrow> Inl TypeError
      | Some p \<Rightarrow>
          (let p' = p\<lparr>chunks := chunks p @ [ab], receivedSize := receivedSize p + length ab\<rparr>
           in Inr ((if onProgress c then [OnProgressRatio (receivedSize p') (totalSize p')]
                    else []),
                   c\<lparr>pendingFile := Some p'\<rparr>)))"

text \<open>The messages of a list handled one after the other, as \<^verbatim>\<open>onmessage\<close> does.\<close>

fun receive :: "WebRTCClient \<Rightarrow> data list \<Rightarrow> event list \<times> WebRTCClient" where
  "receive c [] = ([], c)"
| "receive c (d # ds) =
     (case handleMessage c d of
        (es, c') \<Rightarrow> (case receive c' ds of (es', c'') \<Rightarrow> (es @ es', c'')))"

section \<open>Sending: \<^verbatim>\<open>sendFile\<close>\<close>

text \<open>
  What the sender does not control: \<open>drain t b\<close> is the value of \<^verbatim>\<open>bufferedAmount\<close> after
  the polling interval number \<open>t\<close> (the \<^verbatim>\<open>setTimeout(resolve, 10)\<close>) when it was \<open>b\<close> before
  it, and \<open>utf8Length s\<close> is the number of bytes the transport counts for a string. During
  a transfer nothing else changes the client: the channel stays as it is and no other
  code runs between the polls.
\<close>

record transport =
  drain :: "nat \<Rightarrow> nat \<Rightarrow> nat"
  utf8Length :: "jsstring \<Rightarrow> nat"

fun byteLength :: "transport \<Rightarrow> data \<Rightarrow> nat" where
  "byteLength env (Text s) = utf8Length env s"
| "byteLength env (ArrayBuffer b) = length b"
| "byteLength env (BlobData b) = length b"

text \<open>
  \<^verbatim>\<open>this.dataChannel.send(d)\<close>: a \<^verbatim>\<open>TypeError\<close> without a channel, an
  \<^verbatim>\<open>InvalidStateError\<close> on a channel that is not open; otherwise the data is queued and
  \<^verbatim>\<open>bufferedAmount\<close> grows by its size.
\<close>

definition send :: "transport \<Rightarrow> WebRTCClient \<Rightarrow> data \<Rightarrow> error + (event \<times> WebRTCClient)" where
  "send env c d =
     (case dataChannel c of
        None \<Rightarrow> Inl TypeError
      | Some ch \<Rightarrow>
          if readyState ch \<noteq> Open then Inl InvalidStateError
          else Inr (Send d (bufferedAmount ch),
                    c\<lparr>dataChannel :=
                        Some (ch\<lparr>bufferedAmount := bufferedAmount ch + byteLength env d\<rparr>)\<rparr>))"

text \<open>
  \<^verbatim>\<open>data.slice(start, end)\<close> of an \<^verbatim>\<open>ArrayBuffer\<close>, for indices that are not negative: both
  are clamped to the length, and an end before the start gives the empty buffer.
\<close>

definition slice :: "bytes \<Rightarrow> nat \<Rightarrow> nat \<Rightarrow> bytes" where
  "slice buf start fin =
     (let len = length buf; first = min start len; final = min fin len
      in take (final - first) (drop first buf))"

text \<open>
  The chunk of index \<open>i\<close>: the locals \<^verbatim>\<open>start\<close>, \<^verbatim>\<open>end\<close> and \<^verbatim>\<open>chunk\<close> of the loop body;
  \<open>tsize\<close> is the local \<^verbatim>\<open>totalSize\<close>.
\<close>

definition chunkAt :: "bytes \<Rightarrow> nat \<Rightarrow> nat \<Rightarrow> bytes" where
  "chunkAt buf tsize i =
     (let start = i * CHUNK_SIZE;
          fin = min (start + CHUNK_SIZE) tsize
      in slice buf start fin)"

text \<open>
  \<^verbatim>\<open>while (this.dataChannel.bufferedAmount > CHUNK_SIZE * 4) await ...\<close>: from the gauge
  \<open>b\<close> at the interval \<open>t\<close>, the interval and the gauge at which the loop is left. The loop
  may poll forever; then there is no result.
\<close>

partial_function (option) waitForDrain :: "(nat \<Rightarrow> nat \<Rightarrow> nat) \<Rightarrow> nat \<Rightarrow> nat \<Rightarrow> (nat \<times> nat) option" where
  "waitForDrain dr t b =
     (if b > CHUNK_SIZE * 4 then waitForDrain dr (Suc t) (dr t b) else Some (t, b))"

text \<open>
  How a call of \<^verbatim>\<open>sendFile\<close> ends: resolved or rejected (\<open>outcome\<close>), with the effects so
  far, the client as it is left and the polling intervals that have passed.
\<close>

record run =
  outcome :: "error + unit"
  effects :: "event list"
  final :: WebRTCClient
  clock :: nat

text \<open>
  The \<^verbatim>\<open>for\<close> loop of \<^verbatim>\<open>sendFile\<close>, from index \<open>i\<close>; \<open>tsize\<close> and \<open>tchunks\<close> are the
  locals \<^verbatim>\<open>totalSize\<close> and \<^verbatim>\<open>totalChunks\<close>.
\<close>

function sendChunks ::
  "transport \<Rightarrow> bytes \<Rightarrow> nat \<Rightarrow> nat \<Rightarrow> nat \<Rightarrow> nat \<Rightarrow> WebRTCClient \<Rightarrow> event list \<Rightarrow> run option" where
  "sendChunks env buf tsize tchunks i t c tr =
     (if i < tchunks then
        (let chunk = chunkAt buf tsize i
         in case dataChannel c of
              None \<Rightarrow> Some \<lparr> outcome = Inl TypeError, effects = tr, final = c, clock = t \<rparr>
            | Some ch \<Rightarrow>
                (case waitForDrain (drain env) t (bufferedAmount ch) of
                   None \<Rightarrow> None
                 | Some (t', b) \<Rightarrow>
                     (case send env (c\<lparr>dataChannel := Some (ch\<lparr>bufferedAmount := b\<rparr>)\<rparr>)
                                (ArrayBuffer chunk) of
                        Inl e \<Rightarrow>
                          Some \<lparr> outcome = Inl e, effects = tr,
                                 final = c\<lparr>dataChannel := Some (ch\<lparr>bufferedAmount := b\<rparr>)\<rparr>,
                                 clock = t' \<rparr>
                      | Inr (ev, c') \<Rightarrow>
                          sendChunks env buf tsize tchunks (i + 1) t' c'
                            (tr @ [ev] @
                             (if onProgress c'
                              then [OnProgress (real (i + 1) / real tchunks)]
                              else [])))))
      else Some \<lparr> outcome = Inr (), effects = tr, final = c, clock = t \<rparr>)"
  by pat_completeness auto
termination
  by (relation "measure (\<lambda>(env, buf, tsize, tchunks, i, t, c, tr). tchunks - i)") auto

declare sendChunks.simps [simp del]

definition headerMessage :: "string \<Rightarrow> string \<Rightarrow> nat \<Rightarrow> nat \<Rightarrow> json" where
  "headerMessage ty fname tsize tchunks =
     JObj [(''header'',
            JObj [(''type'', JStr ty),
                  (''filename'', JStr fname),
                  (''totalSize'', JNum (real tsize)),
                  (''totalChunks'', JNum (real tchunks))])]"

definition completeMessage :: json where
  "completeMessage = JObj [(''complete'', JBool True)]"

definition sendFile ::
  "transport \<Rightarrow> nat \<Rightarrow> WebRTCClient \<Rightarrow> string \<Rightarrow> string \<Rightarrow> bytes \<Rightarrow> run option" where
  "sendFile env t c ty fname buf =
     (if (case dataChannel c of None \<Rightarrow> True | Some ch \<Rightarrow> readyState ch \<noteq> Open) then
        Some \<lparr> outcome = Inl DataChannelNotOpen, effects = [], final = c, clock = t \<rparr>
      else
        (let tsize = length buf;
             tchunks = nat \<lceil>real tsize / real CHUNK_SIZE\<rceil>
         in case send env c (Text (JSON_stringify (headerMessage ty fname tsize tchunks))) of
              Inl e \<Rightarrow> Some \<lparr> outcome = Inl e, effects = [], final = c, clock = t \<rparr>
            | Inr (ev, c1) \<Rightarrow>
                (case sendChunks env buf tsize tchunks 0 t c1 [ev] of
                   None \<Rightarrow> None
                 | Some r \<Rightarrow>
                     (case outcome r of
                        Inl e \<Rightarrow> Some r
                      | Inr u \<Rightarrow>
                          (case send env (final r) (Text (JSON_stringify completeMessage)) of
                             Inl e \<Rightarrow> Some (r\<lparr>outcome := Inl e\<rparr>)
                           | Inr (ev', c2) \<Rightarrow>
                               Some \<lparr> outcome = Inr (), effects = effects r @ [ev'],
                                      final = c2, clock = clock r \<rparr>)))))"

text \<open>What was passed to \<^verbatim>\<open>send\<close>, and to the sender's \<^verbatim>\<open>onProgress\<close>, in order.\<close>

fun sent :: "event list \<Rightarrow> data list" where
  "sent [] = []"
| "sent (Send d g # es) = d # sent es"
| "sent (e # es) = sent es"

fun progress :: "event list \<Rightarrow> real list" where
  "progress [] = []"
| "progress (OnProgress p # es) = p # progress es"
| "progress (e # es) = progress es"

text \<open>What reached \<^verbatim>\<open>onFileReceived\<close>: kind, file name and blob of each call, in order.\<close>

fun received :: "event list \<Rightarrow> (json option \<times> json option \<times> Blob) list" where
  "received [] = []"
| "received (OnFileReceived ty fname blob # es) = (ty, fname, blob) # received es"
| "received (e # es) = received es"

text \<open>A trace with the gauge readings blanked, to compare the order of the effects.\<close>

fun blank :: "event \<Rightarrow> event" where
  "blank (Send d g) = Send d 0"
| "blank e = e"

section \<open>The connection timeout\<close>

text \<open>
  \<^verbatim>\<open>connect\<close> ends with \<^verbatim>\<open>this.connectionTimeout = setTimeout(..., 30000)\<close>; \<open>h\<close> is the
  handle the platform returns. \<open>connectionTimeoutCallback\<close> is the function given to
  \<^verbatim>\<open>setTimeout\<close>: it writes to the console and, on iOS Safari, shows an alert.
\<close>

definition armConnectionTimeout :: "nat \<Rightarrow> WebRTCClient \<Rightarrow> WebRTCClient" where
  "armConnectionTimeout h c = c\<lparr>connectionTimeout := Some h\<rparr>"

definition connectionTimeoutCallback :: "bool \<Rightarrow> WebRTCClient \<Rightarrow> event list \<times> WebRTCClient" where
  "connectionTimeoutCallback isIOSSafari c =
     (if \<not> isConnected c then ((if isIOSSafari then [Alert] else []), c) else ([], c))"

definition clearConnectionTimeout :: "WebRTCClient \<Rightarrow> event list \<times> WebRTCClient" where
  "clearConnectionTimeout c =
     (case connectionTimeout c of
        None \<Rightarrow> ([], c)
      | Some h \<Rightarrow> ([ClearTimeout h], c\<lparr>connectionTimeout := None\<rparr>))"

text \<open>The \<^verbatim>\<open>onopen\<close> handler of the data channel.\<close>

definition dataChannel_onopen :: "WebRTCClient \<Rightarrow> event list \<times> WebRTCClient" where
  "dataChannel_onopen c =
     (case clearConnectionTimeout c of
        (es, c') \<Rightarrow> (es @ (if onConnected c' then [OnConnected] else []),
                     c'\<lparr>isConnected := True\<rparr>))"

text \<open>
  The \<^verbatim>\<open>'failed'\<close> branch of \<^verbatim>\<open>pc.onconnectionstatechange\<close>, the one place where the client
  reports a failed connection to \<^verbatim>\<open>onError\<close>.
\<close>

definition connectionFailed :: "WebRTCClient \<Rightarrow> event list \<times> WebRTCClient" where
  "connectionFailed c =
     (case clearConnectionTimeout c of
        (es, c') \<Rightarrow> (es @ (if onError c' then [OnError] else []),
                     c'\<lparr>isConnected := False\<rparr>))"

section \<open>Signaling: \<^verbatim>\<open>onRemoteIceCandidate\<close>\<close>

text \<open>
  \<^verbatim>\<open>snapshot.val()\<close> of the candidate list is \<^verbatim>\<open>null\<close> (\<open>None\<close>) or an object, given by
  its \<^verbatim>\<open>Object.entries\<close>. A subscription owns the set \<open>processedKeys\<close>; \<open>applied\<close> lists
  the entries whose candidate was passed to the callback, in the order of the calls.
\<close>

type_synonym snapshot = "(string \<times> json) list option"

record subscription =
  processedKeys :: "string set"
  applied :: "(string \<times> json) list"

text \<open>The function given to \<^verbatim>\<open>forEach\<close>.\<close>

definition processEntry :: "subscription \<Rightarrow> string \<times> json \<Rightarrow> subscription" where
  "processEntry s e =
     (case e of (key, candidate) \<Rightarrow>
        if key \<notin> processedKeys s
        then s\<lparr>processedKeys := insert key (processedKeys s),
               applied := applied s @ [(key, candidate)]\<rparr>
        else s)"

text \<open>The listener given to \<^verbatim>\<open>onValue\<close>.\<close>

definition candidatesListener :: "subscription \<Rightarrow> snapshot \<Rightarrow> subscription" where
  "candidatesListener s snap =
     (case snap of None \<Rightarrow> s | Some entries \<Rightarrow> foldl processEntry s entries)"

text \<open>
  \<^verbatim>\<open>onRemoteIceCandidate(callback)\<close> followed by the deliveries \<open>snaps\<close> of the relay:
  the subscription starts with an empty \<open>processedKeys\<close>.
\<close>

definition onRemoteIceCandidate :: "snapshot list \<Rightarrow> subscription" where
  "onRemoteIceCandidate snaps =
     foldl candidatesListener \<lparr> processedKeys = {}, applied = [] \<rparr> snaps"

text \<open>The keys a list of deliveries mentions.\<close>

fun deliveredKeys :: "snapshot list \<Rightarrow> string set" where
  "deliveredKeys [] = {}"
| "deliveredKeys (None # snaps) = deliveredKeys snaps"
| "deliveredKeys (Some entries # snaps) = fst ` set entries \<union> deliveredKeys snaps"

section \<open>Example values\<close>

text \<open>The client as the constructor leaves it.\<close>

definition newClient :: WebRTCClient where
  "newClient = \<lparr> dataChannel = None, onConnected = False, onDisconnected = False,
                  onProgress = False, onError = False, onFileReceived = False,
                  isConnected = False, connectionTimeout = None, pendingFile = None \<rparr>"

definition phone :: WebRTCClient where
  "phone = newClient\<lparr> dataChannel := Some \<lparr> readyState = Open, bufferedAmount = 0 \<rparr>,
                      onProgress := True, isConnected := True \<rparr>"

definition board :: WebRTCClient where
  "board = newClient\<lparr> onFileReceived := True \<rparr>"

text \<open>A transport that has sent everything after one polling interval.\<close>

definition fastTransport :: transport where
  "fastTransport = \<lparr> drain = (\<lambda>t b. 0), utf8Length = (\<lambda>s. 100) \<rparr>"

text \<open>
  A transport that sends 100000 bytes in a polling interval, and a phone whose channel
  already holds 300000 bytes.
\<close>

definition slowTransport :: transport where
  "slowTransport = \<lparr> drain = (\<lambda>t b. b - 100000), utf8Length = (\<lambda>s. 100) \<rparr>"

definition congestedPhone :: WebRTCClient where
  "congestedPhone = phone\<lparr> dataChannel := Some \<lparr> readyState = Open, bufferedAmount = 300000 \<rparr> \<rparr>"

text \<open>A payload of 200000 bytes.\<close>

definition photo :: bytes where
  "photo = replicate 200000 7"

text \<open>
  A board in the middle of a transfer: the header announced 10 bytes in 2 chunks, and
  one chunk of 3 bytes has arrived.
\<close>

definition partialFile :: PendingFile where
  "partialFile = \<lparr> type = Some (JStr ''pdf''), filename = Some (JStr ''notes.pdf''),
                    totalSize = Some (JNum 10), totalChunks = Some (JNum 2),
                    chunks = [[1, 2, 3]], receivedSize = 3 \<rparr>"

definition busyBoard :: WebRTCClient where
  "busyBoard = newClient\<lparr> onProgress := True, onError := True, onFileReceived := True,
                          pendingFile := Some partialFile \<rparr>"

text \<open>A client that waits for the connection, with the timer armed.\<close>

definition waitingClient :: WebRTCClient where
  "waitingClient = armConnectionTimeout 1 (newClient\<lparr> onError := True \<rparr>)"

section \<open>Invariant of the candidate subscription\<close>

text \<open>
  The keys in \<open>processedKeys\<close> are the keys of the applied entries, and no key was
  applied twice.
\<close>

definition deduplicated :: "subscription \<Rightarrow> bool" where
  "deduplicated s \<longleftrightarrow>
     processedKeys s = fst ` set (applied s) \<and> distinct (map fst (applied s))"

section \<open>Properties of the receiver\<close>

lemma handleMessage_header:
  "handleMessage c (Text (JSON_stringify (headerMessage ty fname n m))) =
     ([], c\<lparr>pendingFile := Some \<lparr> type = Some (JStr ty), filename = Some (JStr fname),
                                    totalSize = Some (JNum (real n)),
                                    totalChunks = Some (JNum (real m)),
                                    chunks = [], receivedSize = 0 \<rparr>\<rparr>)"
  by (simp add: handleMessage_def handleMessage_body_def JSON_stringify_def JSON_parse_def
      headerMessage_def andThen_def)

lemma handleMessage_complete:
  "handleMessage c (Text (JSON_stringify completeMessage)) = finalizeFile c"
  by (simp add: handleMessage_def handleMessage_body_def JSON_stringify_def JSON_parse_def
      completeMessage_def andThen_def finalizeFile_def)

text \<open>
  Claim C3, as the code has it: at the completion sentinel with a pending file, the
  receiver checks nothing. Whatever \<open>receivedSize\<close>, \<open>totalSize\<close> and \<open>totalChunks\<close> are,
  it joins the chunks that arrived, offers them as a download, passes them to
  \<^verbatim>\<open>onFileReceived\<close> when that is set, and clears the pending file.
\<close>

theorem complete_delivers_unchecked:
  assumes "pendingFile c = Some p"
  shows "handleMessage c (Text (JSON_stringify completeMessage)) =
           ([Download (filename p)
               (newBlob (chunks p) (if type p = Some (JStr ''pdf'') then ''application/pdf''
                                    else ''application/octet-stream''))] @
            (if onFileReceived c
             then [OnFileReceived (type p) (filename p)
                     (newBlob (chunks p) (if type p = Some (JStr ''pdf'') then ''application/pdf''
                                          else ''application/octet-stream''))]
             else []),
            c\<lparr>pendingFile := None\<rparr>)"
  using assms by (simp add: handleMessage_complete finalizeFile_def Let_def)

theorem complete_delivers_unchecked_witness:
  "pendingFile busyBoard = Some partialFile
   \<and> handleMessage busyBoard (Text (JSON_stringify completeMessage)) =
       ([Download (Some (JStr ''notes.pdf'')) (newBlob [[1, 2, 3]] ''application/pdf''),
         OnFileReceived (Some (JStr ''pdf'')) (Some (JStr ''notes.pdf''))
           (newBlob [[1, 2, 3]] ''application/pdf'')],
        busyBoard\<lparr>pendingFile := None\<rparr>)"
  using complete_delivers_unchecked [of busyBoard partialFile]
  by (simp add: busyBoard_def partialFile_def newClient_def)

text \<open>
  Claim C3 fails as stated: with 3 of the 10 announced bytes and 1 of the 2 announced
  chunks received, the sentinel makes the receiver deliver the 3 bytes to
  \<^verbatim>\<open>onFileReceived\<close>; no error is raised or logged.
\<close>

theorem integrity_check_counterexample:
  "totalSize partialFile = Some (JNum 10) \<and> receivedSize partialFile = 3
   \<and> totalChunks partialFile = Some (JNum 2) \<and> length (chunks partialFile) = 1
   \<and> handleMessage_body busyBoard (Text (JSON_stringify completeMessage)) =
       Inr ([Download (Some (JStr ''notes.pdf'')) (newBlob [[1, 2, 3]] ''application/pdf''),
             OnFileReceived (Some (JStr ''pdf'')) (Some (JStr ''notes.pdf''))
               (newBlob [[1, 2, 3]] ''application/pdf'')],
            busyBoard\<lparr>pendingFile := None\<rparr>)"
  by (simp add: handleMessage_body_def JSON_stringify_def JSON_parse_def completeMessage_def
      andThen_def finalizeFile_def busyBoard_def partialFile_def newClient_def Let_def)

text \<open>
  Claim C4, as the code has it: a header message always installs a fresh pending file,
  with no chunks and \<open>receivedSize\<close> 0, in place of whatever was pending, and has no other
  effect: no error, no callback.
\<close>

theorem header_replaces_pending:
  "handleMessage c (Text (JSON_stringify (headerMessage ty fname n m))) =
     ([], c\<lparr>pendingFile := Some \<lparr> type = Some (JStr ty), filename = Some (JStr fname),
                                    totalSize = Some (JNum (real n)),
                                    totalChunks = Some (JNum (real m)),
                                    chunks = [], receivedSize = 0 \<rparr>\<rparr>)"
  by (rule handleMessage_header)

text \<open>
  Claim C4 fails as stated: a header that arrives while a transfer is pending throws
  nothing and calls nothing, and the chunk received so far is gone.
\<close>

theorem header_conflict_counterexample:
  "pendingFile busyBoard = Some partialFile
   \<and> handleMessage_body busyBoard (Text (JSON_stringify (headerMessage ''image'' ''photo.jpg'' 5 1))) =
       Inr ([], busyBoard\<lparr>pendingFile :=
                   Some \<lparr> type = Some (JStr ''image''), filename = Some (JStr ''photo.jpg''),
                          totalSize = Some (JNum 5), totalChunks = Some (JNum 1),
                          chunks = [], receivedSize = 0 \<rparr>\<rparr>)"
  by (simp add: handleMessage_body_def JSON_stringify_def JSON_parse_def headerMessage_def
      andThen_def busyBoard_def newClient_def)

text \<open>
  Claim C10: a binary message, buffer or blob, that arrives while no file is pending is
  ignored. The body of \<^verbatim>\<open>handleMessage\<close> throws nothing, no callback is called and the
  client is left as it was.
\<close>

theorem binary_without_pending_ignored:
  assumes "pendingFile c = None"
  shows "handleMessage_body c (ArrayBuffer b) = Inr ([], c)
       \<and> handleMessage_body c (BlobData b) = Inr ([], c)
       \<and> handleMessage c (ArrayBuffer b) = ([], c)
       \<and> handleMessage c (BlobData b) = ([], c)"
  using assms by (simp add: handleMessage_def handleMessage_body_def)

theorem binary_without_pending_ignored_witness:
  "pendingFile board = None
   \<and> handleMessage_body board (ArrayBuffer [1, 2, 3]) = Inr ([], board)
   \<and> handleMessage_body board (BlobData [1, 2, 3]) = Inr ([], board)
   \<and> handleMessage board (ArrayBuffer [1, 2, 3]) = ([], board)
   \<and> handleMessage board (BlobData [1, 2, 3]) = ([], board)"
  using binary_without_pending_ignored [of board "[1, 2, 3]"]
  by (simp add: board_def newClient_def)

section \<open>Properties of the connection timeout\<close>

text \<open>
  Claim C9, as the code has it: when the timer armed by \<^verbatim>\<open>connect\<close> fires, the callback
  throws nothing and calls neither \<^verbatim>\<open>onError\<close> nor any other callback; it leaves the
  client as it was (no failed state, no retry, nothing closed). Besides console output
  its only effect is an alert, on iOS Safari while the client is not connected.
\<close>

theorem timeout_only_alerts:
  "connectionTimeoutCallback isIOSSafari c =
     ((if \<not> isConnected c \<and> isIOSSafari then [Alert] else []), c)"
  by (simp add: connectionTimeoutCallback_def)

text \<open>
  Claim C9 fails as stated: the timer fires on a client that is not connected and has
  an \<^verbatim>\<open>onError\<close> callback; nothing is reported and nothing changes. A failed connection
  state, in contrast, is reported to \<^verbatim>\<open>onError\<close>.
\<close>

theorem timeout_counterexample:
  "\<not> isConnected waitingClient \<and> onError waitingClient
   \<and> connectionTimeout waitingClient = Some 1
   \<and> connectionTimeoutCallback False waitingClient = ([], waitingClient)
   \<and> fst (connectionFailed waitingClient) = [ClearTimeout 1, OnError]"
  by (simp add: connectionTimeoutCallback_def connectionFailed_def clearConnectionTimeout_def
      waitingClient_def armConnectionTimeout_def newClient_def)

section \<open>Properties of the candidate subscription\<close>

lemma processEntry_keys:
  "processedKeys (processEntry s e) = insert (fst e) (processedKeys s)"
  by (cases e) (auto simp: processEntry_def)

lemma processEntry_deduplicated:
  "deduplicated s \<Longrightarrow> deduplicated (processEntry s e)"
  by (cases e) (auto simp: processEntry_def deduplicated_def)

lemma forEach_keys:
  "processedKeys (foldl processEntry s es) = processedKeys s \<union> fst ` set es"
  by (induction es arbitrary: s) (auto simp: processEntry_keys)

lemma forEach_deduplicated:
  "deduplicated s \<Longrightarrow> deduplicated (foldl processEntry s es)"
  by (induction es arbitrary: s) (auto simp: processEntry_deduplicated)

lemma listener_keys:
  "processedKeys (candidatesListener s snap) =
     processedKeys s \<union> (case snap of None \<Rightarrow> {} | Some es \<Rightarrow> fst ` set es)"
  by (cases snap) (simp_all add: candidatesListener_def forEach_keys)

lemma listener_deduplicated:
  "deduplicated s \<Longrightarrow> deduplicated (candidatesListener s snap)"
  by (cases snap) (auto simp: candidatesListener_def forEach_deduplicated)

lemma deliveries_keys:
  "processedKeys (foldl candidatesListener s snaps) = processedKeys s \<union> deliveredKeys snaps"
proof (induction snaps arbitrary: s)
  case Nil
  show ?case by simp
next
  case (Cons snap snaps)
  show ?case
    by (cases snap) (auto simp: Cons.IH listener_keys)
qed

lemma deliveries_deduplicated:
  "deduplicated s \<Longrightarrow> deduplicated (foldl candidatesListener s snaps)"
  by (induction snaps arbitrary: s) (auto simp: listener_deduplicated)

lemma count_list_distinct:
  "distinct xs \<Longrightarrow> count_list xs x = (if x \<in> set xs then 1 else 0)"
  by (induction xs) auto

text \<open>
  Claim C8: over any sequence of deliveries of the candidate list, the callback is
  called exactly once for every key that some delivery contains, however often the key
  is delivered again, and never for another key.
\<close>

theorem candidate_applied_once:
  "count_list (map fst (applied (onRemoteIceCandidate snaps))) key =
     (if key \<in> deliveredKeys snaps then 1 else 0)"
proof -
  let ?s = "onRemoteIceCandidate snaps"
  have "deduplicated \<lparr> processedKeys = {}, applied = [] \<rparr>"
    by (simp add: deduplicated_def)
  then have d: "deduplicated ?s"
    unfolding onRemoteIceCandidate_def by (rule deliveries_deduplicated)
  have k: "processedKeys ?s = deliveredKeys snaps"
    by (simp add: onRemoteIceCandidate_def deliveries_keys)
  from d k have "set (map fst (applied ?s)) = deliveredKeys snaps"
    by (simp add: deduplicated_def)
  moreover from d have "distinct (map fst (applied ?s))"
    by (simp add: deduplicated_def)
  ultimately show ?thesis
    by (simp add: count_list_distinct)
qed

section \<open>Properties of the sender\<close>

text \<open>
  Claim C6: without a data channel, or with one whose \<open>readyState\<close> is not open,
  \<^verbatim>\<open>sendFile\<close> throws its \<^verbatim>\<open>'DataChannel not open'\<close> error at once: nothing is sent, no
  polling interval passes and the client, its channel included, is left as it was.
\<close>

theorem sendFile_not_open:
  assumes "dataChannel c = None \<or> (\<exists>ch. dataChannel c = Some ch \<and> readyState ch \<noteq> Open)"
  shows "sendFile env t c ty fname buf =
           Some \<lparr> outcome = Inl DataChannelNotOpen, effects = [], final = c, clock = t \<rparr>"
  using assms by (auto simp: sendFile_def)

theorem sendFile_not_open_witness:
  "sendFile fastTransport 0 newClient ''image'' ''photo.jpg'' [1, 2, 3] =
     Some \<lparr> outcome = Inl DataChannelNotOpen, effects = [], final = newClient, clock = 0 \<rparr>
   \<and> sendFile fastTransport 7
        (newClient\<lparr>dataChannel := Some \<lparr>readyState = Closing, bufferedAmount = 12\<rparr>\<rparr>)
        ''audio'' ''recording.webm'' [] =
     Some \<lparr> outcome = Inl DataChannelNotOpen, effects = [],
            final = newClient\<lparr>dataChannel := Some \<lparr>readyState = Closing, bufferedAmount = 12\<rparr>\<rparr>,
            clock = 7 \<rparr>"
  using sendFile_not_open [of newClient fastTransport 0 "''image''" "''photo.jpg''" "[1, 2, 3]"]
        sendFile_not_open [of "newClient\<lparr>dataChannel := Some \<lparr>readyState = Closing, bufferedAmount = 12\<rparr>\<rparr>"
                              fastTransport 7 "''audio''" "''recording.webm''" "[]"]
  by (simp add: newClient_def)

subsection \<open>Chunks\<close>

lemma ceiling_chunks_cover:
  assumes "0 < d"
  shows "n \<le> nat \<lceil>real n / real d\<rceil> * d"
proof -
  let ?q = "\<lceil>real n / real d\<rceil>"
  have "0 \<le> real n / real d" by simp
  then have nonneg: "0 \<le> ?q" using ceiling_mono [of 0 "real n / real d"] by simp
  have dpos: "0 < real d" using assms by simp
  have "real n \<le> of_int ?q * real d"
    by (rule iffD1 [OF pos_divide_le_eq [OF dpos] le_of_int_ceiling])
  also have "of_int ?q = real (nat ?q)"
    using nonneg by simp
  finally have "real n \<le> real (nat ?q * d)"
    by simp
  then show ?thesis
    by (simp only: of_nat_le_iff)
qed

lemma length_slice: "length (slice buf s f) \<le> f - s"
  by (auto simp: slice_def Let_def min_def)

lemma length_chunkAt: "length (chunkAt buf n i) \<le> CHUNK_SIZE"
proof -
  have "length (chunkAt buf n i) \<le> min (i * CHUNK_SIZE + CHUNK_SIZE) n - i * CHUNK_SIZE"
    unfolding chunkAt_def Let_def by (rule length_slice)
  also have "\<dots> \<le> CHUNK_SIZE" by simp
  finally show ?thesis .
qed

lemma chunkAt_take_drop:
  "chunkAt buf (length buf) = (\<lambda>i. take CHUNK_SIZE (drop (i * CHUNK_SIZE) buf))"
  by (auto simp: chunkAt_def slice_def Let_def min_def fun_eq_iff)

lemma concat_pieces:
  "concat (map (\<lambda>k. take c (drop (k * c) xs)) [0..<n]) = take (n * c) xs"
proof (induction n)
  case 0
  show ?case by simp
next
  case (Suc n)
  have "take (n * c) xs @ take c (drop (n * c) xs) = take (n * c + c) xs"
    by (simp add: take_add)
  with Suc show ?case by (simp add: add.commute)
qed

lemma concat_chunks:
  "concat (map (chunkAt buf (length buf)) [0..<nat \<lceil>real (length buf) / real CHUNK_SIZE\<rceil>]) = buf"
proof -
  have "0 < CHUNK_SIZE" by (simp add: CHUNK_SIZE_def)
  then have "length buf \<le> nat \<lceil>real (length buf) / real CHUNK_SIZE\<rceil> * CHUNK_SIZE"
    by (rule ceiling_chunks_cover)
  then show ?thesis
    by (simp add: chunkAt_take_drop concat_pieces)
qed

lemma waitForDrain_bound:
  assumes "waitForDrain dr t b = Some r"
  shows "snd r \<le> CHUNK_SIZE * 4"
proof (rule waitForDrain.raw_induct [where P = "\<lambda>dr t b r. snd r \<le> CHUNK_SIZE * 4", OF _ assms])
  fix w :: "(nat \<Rightarrow> nat \<Rightarrow> nat) \<Rightarrow> nat \<Rightarrow> nat \<Rightarrow> (nat \<times> nat) option"
  fix dr t b r
  assume "\<And>dr t b r. w dr t b = Some r \<Longrightarrow> snd r \<le> CHUNK_SIZE * 4"
    and "(if CHUNK_SIZE * 4 < b then w dr (Suc t) (dr t b) else Some (t, b)) = Some r"
  then show "snd r \<le> CHUNK_SIZE * 4"
    by (auto split: if_splits)
qed

lemma draining_polls_end:
  assumes "\<And>t b. CHUNK_SIZE * 4 < b \<Longrightarrow> dr t b < b"
  shows "\<exists>r. waitForDrain dr t b = Some r"
proof (induction b arbitrary: t rule: less_induct)
  case (less b)
  show ?case
  proof (cases "CHUNK_SIZE * 4 < b")
    case True
    then have "dr t b < b" by (rule assms)
    then obtain r where "waitForDrain dr (Suc t) (dr t b) = Some r"
      using less by blast
    with True show ?thesis
      by (subst waitForDrain.simps) simp
  next
    case False
    then show ?thesis
      by (subst waitForDrain.simps) simp
  qed
qed

subsection \<open>The loop\<close>

lemma sendChunks_done:
  "\<not> i < m \<Longrightarrow>
   sendChunks env buf n m i t c tr = Some \<lparr> outcome = Inr (), effects = tr, final = c, clock = t \<rparr>"
  by (subst sendChunks.simps) simp

lemma sendChunks_step:
  assumes "i < m" and "dataChannel c = Some ch" and "readyState ch = Open"
    and "waitForDrain (drain env) t (bufferedAmount ch) = Some (t', b)"
  shows "sendChunks env buf n m i t c tr =
           sendChunks env buf n m (i + 1) t'
             (c\<lparr>dataChannel := Some (ch\<lparr>bufferedAmount := b + length (chunkAt buf n i)\<rparr>)\<rparr>)
             (tr @ [Send (ArrayBuffer (chunkAt buf n i)) b] @
              (if onProgress c then [OnProgress (real (i + 1) / real m)] else []))"
  using assms by (subst sendChunks.simps) (simp add: Let_def send_def)

lemma sendChunks_total:
  assumes live: "\<And>t b. \<exists>r. waitForDrain (drain env) t b = Some r"
  shows "dataChannel c = Some ch \<Longrightarrow> readyState ch = Open \<Longrightarrow>
    \<exists>r g. sendChunks env buf n m i t c tr = Some r \<and> outcome r = Inr () \<and>
          final r = c\<lparr>dataChannel := Some (ch\<lparr>bufferedAmount := g\<rparr>)\<rparr> \<and>
          map blank (effects r) =
            map blank tr @
            concat (map (\<lambda>k. Send (ArrayBuffer (chunkAt buf n k)) 0 #
                             (if onProgress c then [OnProgress (real (k + 1) / real m)] else []))
                        [i..<m])"
proof (induction "m - i" arbitrary: i t c ch tr)
  case 0
  then have stop: "\<not> i < m" by simp
  have "c = c\<lparr>dataChannel := Some (ch\<lparr>bufferedAmount := bufferedAmount ch\<rparr>)\<rparr>"
    using "0.prems" by simp
  with stop show ?case
    by (auto simp: sendChunks_done intro!: exI [of _ "bufferedAmount ch"])
next
  case (Suc k)
  then have lt: "i < m" by simp
  obtain t' b where w: "waitForDrain (drain env) t (bufferedAmount ch) = Some (t', b)"
    using live [of t "bufferedAmount ch"] by auto
  let ?ch2 = "ch\<lparr>bufferedAmount := b + length (chunkAt buf n i)\<rparr>"
  let ?c2 = "c\<lparr>dataChannel := Some ?ch2\<rparr>"
  let ?tr2 = "tr @ [Send (ArrayBuffer (chunkAt buf n i)) b] @
              (if onProgress c then [OnProgress (real (i + 1) / real m)] else [])"
  have step: "sendChunks env buf n m i t c tr = sendChunks env buf n m (i + 1) t' ?c2 ?tr2"
    using lt Suc.prems w by (rule sendChunks_step)
  have k: "k = m - (i + 1)" using Suc.hyps(2) by simp
  have "dataChannel ?c2 = Some ?ch2" and "readyState ?ch2 = Open"
    using Suc.prems by simp_all
  from Suc.hyps(1) [OF k this]
  obtain r g where r: "sendChunks env buf n m (i + 1) t' ?c2 ?tr2 = Some r"
      and ok: "outcome r = Inr ()"
      and fin: "final r = ?c2\<lparr>dataChannel := Some (?ch2\<lparr>bufferedAmount := g\<rparr>)\<rparr>"
      and eff: "map blank (effects r) =
            map blank ?tr2 @
            concat (map (\<lambda>k. Send (ArrayBuffer (chunkAt buf n k)) 0 #
                             (if onProgress ?c2 then [OnProgress (real (k + 1) / real m)] else []))
                        [i + 1..<m])"
    by blast
  have upt: "[i..<m] = i # [i + 1..<m]"
    using lt by (simp add: upt_conv_Cons)
  have "final r = c\<lparr>dataChannel := Some (ch\<lparr>bufferedAmount := g\<rparr>)\<rparr>"
    using fin by simp
  moreover have "map blank (effects r) =
            map blank tr @
            concat (map (\<lambda>k. Send (ArrayBuffer (chunkAt buf n k)) 0 #
                             (if onProgress c then [OnProgress (real (k + 1) / real m)] else []))
                        [i..<m])"
    using eff by (simp add: upt)
  ultimately show ?case
    using step r ok by auto
qed

lemma sendChunks_cases:
  assumes "i < m" and "sendChunks env buf n m i t c tr = Some r"
  shows "effects r = tr \<or>
         (\<exists>t' b c' ps. b \<le> CHUNK_SIZE * 4 \<and> (\<forall>d g. Send d g \<notin> set ps) \<and>
            sendChunks env buf n m (i + 1) t' c'
              (tr @ [Send (ArrayBuffer (chunkAt buf n i)) b] @ ps) = Some r)"
proof (cases "dataChannel c")
  case None
  with assms show ?thesis
    by (subst (asm) sendChunks.simps) (auto simp: Let_def)
next
  case (Some ch)
  show ?thesis
  proof (cases "waitForDrain (drain env) t (bufferedAmount ch)")
    case None
    with assms Some show ?thesis
      by (subst (asm) sendChunks.simps) (auto simp: Let_def)
  next
    case (Some w)
    obtain t' b where w: "w = (t', b)" by (cases w)
    have b: "b \<le> CHUNK_SIZE * 4"
      using waitForDrain_bound [OF Some] w by simp
    show ?thesis
    proof (cases "readyState ch = Open")
      case False
      with assms \<open>dataChannel c = Some ch\<close> Some w show ?thesis
        by (subst (asm) sendChunks.simps) (auto simp: Let_def send_def)
    next
      case True
      let ?c' = "c\<lparr>dataChannel := Some (ch\<lparr>bufferedAmount := b + length (chunkAt buf n i)\<rparr>)\<rparr>"
      let ?ps = "if onProgress c then [OnProgress (real (i + 1) / real m)] else []"
      have "sendChunks env buf n m (i + 1) t' ?c'
              (tr @ [Send (ArrayBuffer (chunkAt buf n i)) b] @ ?ps) = Some r"
        using sendChunks_step [OF assms(1) \<open>dataChannel c = Some ch\<close> True, of env t t' b buf n tr]
          Some w assms(2) by simp
      moreover have "\<forall>d g. Send d g \<notin> set ?ps" by simp
      ultimately show ?thesis using b by blast
    qed
  qed
qed

lemma sendChunks_gauge:
  "sendChunks env buf n m i t c tr = Some r \<Longrightarrow> Send (ArrayBuffer d) g \<in> set (effects r) \<Longrightarrow>
   Send (ArrayBuffer d) g \<in> set tr \<or> (g \<le> CHUNK_SIZE * 4 \<and> length d \<le> CHUNK_SIZE)"
proof (induction "m - i" arbitrary: i t c tr)
  case 0
  then show ?case by (auto simp: sendChunks_done)
next
  case (Suc k)
  then have lt: "i < m" by simp
  from sendChunks_cases [OF lt Suc.prems(1)]
  show ?case
  proof
    assume "effects r = tr"
    with Suc.prems show ?thesis by simp
  next
    assume "\<exists>t' b c' ps. b \<le> CHUNK_SIZE * 4 \<and> (\<forall>d g. Send d g \<notin> set ps) \<and>
            sendChunks env buf n m (i + 1) t' c'
              (tr @ [Send (ArrayBuffer (chunkAt buf n i)) b] @ ps) = Some r"
    then obtain t' b c' ps where b: "b \<le> CHUNK_SIZE * 4"
      and ps: "\<forall>d g. Send d g \<notin> set ps"
      and r: "sendChunks env buf n m (i + 1) t' c'
              (tr @ [Send (ArrayBuffer (chunkAt buf n i)) b] @ ps) = Some r"
      by blast
    have "k = m - (i + 1)" using Suc.hyps(2) by simp
    from Suc.hyps(1) [OF this r Suc.prems(2)]
    show ?thesis using b ps length_chunkAt [of buf n i] by auto
  qed
qed

lemma send_Inr:
  "send env c d = Inr (ev, c') \<Longrightarrow> \<exists>g. ev = Send d g"
  by (auto simp: send_def split: option.splits if_splits)

lemma sendFile_total:
  assumes live: "\<And>t b. \<exists>r. waitForDrain (drain env) t b = Some r"
    and dc: "dataChannel c = Some ch" and op: "readyState ch = Open"
  shows "\<exists>r g. sendFile env t c ty fname buf = Some r \<and> outcome r = Inr () \<and>
          final r = c\<lparr>dataChannel := Some (ch\<lparr>bufferedAmount := g\<rparr>)\<rparr> \<and>
          map blank (effects r) =
            Send (Text (JSON_stringify (headerMessage ty fname (length buf)
                    (nat \<lceil>real (length buf) / real CHUNK_SIZE\<rceil>)))) 0 #
            concat (map (\<lambda>k. Send (ArrayBuffer (chunkAt buf (length buf) k)) 0 #
                             (if onProgress c
                              then [OnProgress (real (k + 1) /
                                      real (nat \<lceil>real (length buf) / real CHUNK_SIZE\<rceil>))]
                              else []))
                        [0..<nat \<lceil>real (length buf) / real CHUNK_SIZE\<rceil>]) @
            [Send (Text (JSON_stringify completeMessage)) 0]"
proof -
  let ?m = "nat \<lceil>real (length buf) / real CHUNK_SIZE\<rceil>"
  let ?hdr = "Text (JSON_stringify (headerMessage ty fname (length buf) ?m))"
  let ?ch1 = "ch\<lparr>bufferedAmount := bufferedAmount ch + byteLength env ?hdr\<rparr>"
  let ?c1 = "c\<lparr>dataChannel := Some ?ch1\<rparr>"
  have s1: "send env c ?hdr = Inr (Send ?hdr (bufferedAmount ch), ?c1)"
    using dc op by (simp add: send_def)
  have "dataChannel ?c1 = Some ?ch1" and "readyState ?ch1 = Open"
    using op by simp_all
  from sendChunks_total [OF live this, of buf "length buf" ?m 0 t "[Send ?hdr (bufferedAmount ch)]"]
  obtain r g where r: "sendChunks env buf (length buf) ?m 0 t ?c1 [Send ?hdr (bufferedAmount ch)] = Some r"
    and ok: "outcome r = Inr ()"
    and fin: "final r = ?c1\<lparr>dataChannel := Some (?ch1\<lparr>bufferedAmount := g\<rparr>)\<rparr>"
    and eff: "map blank (effects r) =
            map blank [Send ?hdr (bufferedAmount ch)] @
            concat (map (\<lambda>k. Send (ArrayBuffer (chunkAt buf (length buf) k)) 0 #
                             (if onProgress ?c1 then [OnProgress (real (k + 1) / real ?m)] else []))
                        [0..<?m])"
    by blast
  let ?fin = "Text (JSON_stringify completeMessage)"
  let ?ch2 = "ch\<lparr>bufferedAmount := g + byteLength env ?fin\<rparr>"
  have s2: "send env (final r) ?fin = Inr (Send ?fin g, c\<lparr>dataChannel := Some ?ch2\<rparr>)"
    using fin op by (simp add: send_def)
  have "sendFile env t c ty fname buf =
          Some \<lparr> outcome = Inr (), effects = effects r @ [Send ?fin g],
                 final = c\<lparr>dataChannel := Some ?ch2\<rparr>, clock = clock r \<rparr>"
    using dc op s1 r ok s2 by (simp add: sendFile_def Let_def)
  moreover have "map blank (effects r @ [Send ?fin g]) =
            Send ?hdr 0 #
            concat (map (\<lambda>k. Send (ArrayBuffer (chunkAt buf (length buf) k)) 0 #
                             (if onProgress c then [OnProgress (real (k + 1) / real ?m)] else []))
                        [0..<?m]) @ [Send ?fin 0]"
    using eff by simp
  ultimately show ?thesis
    by (intro exI [of _ "\<lparr> outcome = Inr (), effects = effects r @ [Send ?fin g],
                 final = c\<lparr>dataChannel := Some ?ch2\<rparr>, clock = clock r \<rparr>"]
              exI [of _ "g + byteLength env ?fin"]) simp
qed

lemma sendFile_gauge:
  assumes "sendFile env t c ty fname buf = Some r"
    and "Send (ArrayBuffer d) g \<in> set (effects r)"
  shows "g \<le> CHUNK_SIZE * 4 \<and> length d \<le> CHUNK_SIZE"
proof -
  let ?m = "nat \<lceil>real (length buf) / real CHUNK_SIZE\<rceil>"
  let ?hdr = "Text (JSON_stringify (headerMessage ty fname (length buf) ?m))"
  let ?fin = "Text (JSON_stringify completeMessage)"
  show ?thesis
  proof (cases "send env c ?hdr")
    case (Inl e)
    with assms show ?thesis
      by (auto simp: sendFile_def Let_def split: if_splits)
  next
    case (Inr p)
    obtain ev c1 where p: "p = (ev, c1)" by (cases p)
    obtain g0 where ev: "ev = Send ?hdr g0"
      using send_Inr Inr p by blast
    show ?thesis
    proof (cases "case dataChannel c of None \<Rightarrow> True | Some ch \<Rightarrow> readyState ch \<noteq> Open")
      case True
      with assms show ?thesis by (auto simp: sendFile_def)
    next
      case False
      then obtain r' where r': "sendChunks env buf (length buf) ?m 0 t c1 [ev] = Some r'"
        and sub: "set (effects r) \<subseteq> set (effects r') \<union> {e. \<exists>g. e = Send ?fin g}"
        using assms(1) Inr p
        by (auto simp: sendFile_def Let_def split: option.splits sum.splits dest: send_Inr)
      from sub assms(2) have "Send (ArrayBuffer d) g \<in> set (effects r')" by auto
      from sendChunks_gauge [OF r' this] ev show ?thesis by simp
    qed
  qed
qed

subsection \<open>Example runs\<close>

lemma fastTransport_drains: "\<exists>r. waitForDrain (drain fastTransport) t b = Some r"
  by (rule draining_polls_end) (simp add: fastTransport_def CHUNK_SIZE_def)

lemma waitForDrain_low: "b \<le> CHUNK_SIZE * 4 \<Longrightarrow> waitForDrain dr t b = Some (t, b)"
  by (subst waitForDrain.simps) simp

lemma waitForDrain_high:
  "CHUNK_SIZE * 4 < b \<Longrightarrow> waitForDrain dr t b = waitForDrain dr (Suc t) (dr t b)"
  by (subst waitForDrain.simps) simp

lemma slowTransport_drains: "\<exists>r. waitForDrain (drain slowTransport) t b = Some r"
  by (rule draining_polls_end) (simp add: slowTransport_def CHUNK_SIZE_def)

lemma congested_run:
  "sendFile slowTransport 0 congestedPhone ''image'' ''photo.jpg'' photo =
     Some \<lparr> outcome = Inr (),
            effects = [Send (Text (JSON_stringify (headerMessage ''image'' ''photo.jpg'' 200000 4))) 300000,
                       Send (ArrayBuffer (replicate 65536 7)) 200100,
                       OnProgress (1 / 4),
                       Send (ArrayBuffer (replicate 65536 7)) 165636,
                       OnProgress (1 / 2),
                       Send (ArrayBuffer (replicate 65536 7)) 231172,
                       OnProgress (3 / 4),
                       Send (ArrayBuffer (replicate 3392 7)) 196708,
                       OnProgress 1,
                       Send (Text (JSON_stringify completeMessage)) 200100],
            final = phone\<lparr>dataChannel := Some \<lparr>readyState = Open, bufferedAmount = 200200\<rparr>\<rparr>,
            clock = 3 \<rparr>"
  by (simp add: sendFile_def sendChunks.simps waitForDrain_low waitForDrain_high send_def
      chunkAt_def slice_def congestedPhone_def phone_def newClient_def slowTransport_def
      CHUNK_SIZE_def Let_def headerMessage_def photo_def)

text \<open>
  The 200000 bytes of \<open>photo\<close> over an idle channel: a header announcing 4 chunks,
  frames of 65536, 65536, 65536 and 3392 bytes with the progress values 0.25, 0.5, 0.75
  and 1, and the completion message.
\<close>

lemma photo_run:
  "sendFile fastTransport 0 phone ''image'' ''photo.jpg'' photo =
     Some \<lparr> outcome = Inr (),
            effects = [Send (Text (JSON_stringify (headerMessage ''image'' ''photo.jpg'' 200000 4))) 0,
                       Send (ArrayBuffer (replicate 65536 7)) 100,
                       OnProgress (1 / 4),
                       Send (ArrayBuffer (replicate 65536 7)) 65636,
                       OnProgress (1 / 2),
                       Send (ArrayBuffer (replicate 65536 7)) 131172,
                       OnProgress (3 / 4),
                       Send (ArrayBuffer (replicate 3392 7)) 196708,
                       OnProgress 1,
                       Send (Text (JSON_stringify completeMessage)) 200100],
            final = phone\<lparr>dataChannel := Some \<lparr>readyState = Open, bufferedAmount = 200200\<rparr>\<rparr>,
            clock = 0 \<rparr>"
  by (simp add: sendFile_def sendChunks.simps waitForDrain_low waitForDrain_high send_def
      chunkAt_def slice_def phone_def newClient_def fastTransport_def CHUNK_SIZE_def Let_def
      headerMessage_def photo_def)

subsection \<open>Frames, progress and backpressure\<close>

lemma sent_append: "sent (xs @ ys) = sent xs @ sent ys"
  by (induction xs rule: sent.induct) simp_all

lemma sent_blank: "sent (map blank es) = sent es"
  by (induction es rule: sent.induct) simp_all

lemma sent_pieces:
  "sent (concat (map (\<lambda>k. Send (ArrayBuffer (f k)) 0 # (if P then [OnProgress (q k)] else [])) ks)) =
     map (\<lambda>k. ArrayBuffer (f k)) ks"
  by (induction ks) (simp_all add: sent_append)

lemma progress_append: "progress (xs @ ys) = progress xs @ progress ys"
  by (induction xs rule: progress.induct) simp_all

lemma progress_blank: "progress (map blank es) = progress es"
  by (induction es rule: progress.induct) simp_all

lemma progress_pieces:
  "progress (concat (map (\<lambda>k. [Send (ArrayBuffer (f k)) 0, OnProgress (q k)]) ks)) = map q ks"
  by (induction ks) (simp_all add: progress_append)

lemma chunks_positive:
  "buf \<noteq> [] \<Longrightarrow> 0 < nat \<lceil>real (length buf) / real CHUNK_SIZE\<rceil>"
  using ceiling_chunks_cover [of CHUNK_SIZE "length buf"]
  by (cases "nat \<lceil>real (length buf) / real CHUNK_SIZE\<rceil>") (simp_all add: CHUNK_SIZE_def)

lemma fractions_increasing:
  "sorted_wrt (<) (map (\<lambda>k. real (k + 1) / real m) [0..<m])"
proof -
  have "sorted_wrt (\<lambda>x y. real (x + 1) / real m < real (y + 1) / real m) [0..<m]"
  proof (rule sorted_wrt_mono_rel [OF _ sorted_wrt_upt])
    fix x y
    assume "x \<in> set [0..<m]" and "y \<in> set [0..<m]" and "x < y"
    then show "real (x + 1) / real m < real (y + 1) / real m"
      by (simp add: divide_strict_right_mono)
  qed
  then show ?thesis by (simp add: sorted_wrt_map)
qed

lemma last_fraction:
  "0 < m \<Longrightarrow> last (map (\<lambda>k. real (k + 1) / real m) [0..<m]) = 1"
  by (cases m) simp_all

text \<open>
  Claim C2: on an open channel whose polls end, \<^verbatim>\<open>sendFile\<close> returns normally, and what it
  passed to \<^verbatim>\<open>send\<close> is: one header, the JSON object with the one member \<^verbatim>\<open>header\<close> that
  holds \<^verbatim>\<open>type\<close>, \<^verbatim>\<open>filename\<close>, \<^verbatim>\<open>totalSize\<close> (the length of the payload) and
  \<^verbatim>\<open>totalChunks\<close> (the ceiling of the length over 65536); then that many binary
  messages, the one of index \<open>i\<close> holding the bytes of the payload from offset
  \<open>i * 65536\<close>, at most 65536 of them; then one completion message, the JSON object
  \<^verbatim>\<open>{complete: true}\<close>. The sizes of the binary messages add up to the length of the
  payload, and joined in order they are the payload.
\<close>

theorem sendFile_frames:
  assumes "dataChannel c = Some ch" and "readyState ch = Open"
    and "\<And>t b. \<exists>r. waitForDrain (drain env) t b = Some r"
  shows "\<exists>r. sendFile env t c ty fname buf = Some r \<and> outcome r = Inr () \<and>
           sent (effects r) =
             Text (JSON_text
               (JObj [(''header'',
                       JObj [(''type'', JStr ty),
                             (''filename'', JStr fname),
                             (''totalSize'', JNum (real (length buf))),
                             (''totalChunks'',
                              JNum (real (nat \<lceil>real (length buf) / 65536\<rceil>)))])])) #
             map (\<lambda>i. ArrayBuffer (take 65536 (drop (i * 65536) buf)))
                 [0..<nat \<lceil>real (length buf) / 65536\<rceil>] @
             [Text (JSON_text (JObj [(''complete'', JBool True)]))] \<and>
           (\<forall>i. length (take 65536 (drop (i * 65536) buf)) \<le> 65536) \<and>
           (\<Sum>i<nat \<lceil>real (length buf) / 65536\<rceil>. length (take 65536 (drop (i * 65536) buf))) =
             length buf \<and>
           concat (map (\<lambda>i. take 65536 (drop (i * 65536) buf))
                       [0..<nat \<lceil>real (length buf) / 65536\<rceil>]) = buf"
proof -
  let ?m = "nat \<lceil>real (length buf) / real CHUNK_SIZE\<rceil>"
  have cs: "CHUNK_SIZE = 65536" by (simp add: CHUNK_SIZE_def)
  from sendFile_total [OF assms(3) assms(1) assms(2), of t ty fname buf]
  obtain r where r: "sendFile env t c ty fname buf = Some r" and ok: "outcome r = Inr ()"
    and eff: "map blank (effects r) =
            Send (Text (JSON_stringify (headerMessage ty fname (length buf) ?m))) 0 #
            concat (map (\<lambda>k. Send (ArrayBuffer (chunkAt buf (length buf) k)) 0 #
                             (if onProgress c then [OnProgress (real (k + 1) / real ?m)] else []))
                        [0..<?m]) @
            [Send (Text (JSON_stringify completeMessage)) 0]"
    by auto
  have "sent (effects r) = sent (map blank (effects r))"
    by (simp add: sent_blank)
  also have "\<dots> = Text (JSON_stringify (headerMessage ty fname (length buf) ?m)) #
             map (\<lambda>i. ArrayBuffer (chunkAt buf (length buf) i)) [0..<?m] @
             [Text (JSON_stringify completeMessage)]"
    unfolding eff by (simp add: sent_append sent_pieces)
  finally have frames: "sent (effects r) =
             Text (JSON_stringify (headerMessage ty fname (length buf) ?m)) #
             map (\<lambda>i. ArrayBuffer (take CHUNK_SIZE (drop (i * CHUNK_SIZE) buf))) [0..<?m] @
             [Text (JSON_stringify completeMessage)]"
    by (simp add: chunkAt_take_drop)
  have whole: "concat (map (\<lambda>i. take CHUNK_SIZE (drop (i * CHUNK_SIZE) buf)) [0..<?m]) = buf"
    using concat_chunks [of buf] by (simp add: chunkAt_take_drop)
  have "(\<Sum>i<?m. length (take CHUNK_SIZE (drop (i * CHUNK_SIZE) buf))) =
          sum_list (map length (map (\<lambda>i. take CHUNK_SIZE (drop (i * CHUNK_SIZE) buf)) [0..<?m]))"
    by (simp add: sum_list_sum_nth atLeast0LessThan del: length_take length_drop)
  also have "\<dots> = length (concat (map (\<lambda>i. take CHUNK_SIZE (drop (i * CHUNK_SIZE) buf)) [0..<?m]))"
    by (simp only: length_concat)
  finally have total: "(\<Sum>i<?m. length (take CHUNK_SIZE (drop (i * CHUNK_SIZE) buf))) = length buf"
    by (simp only: whole)
  have wire: "sent (effects r) =
             Text (JSON_text
               (JObj [(''header'',
                       JObj [(''type'', JStr ty),
                             (''filename'', JStr fname),
                             (''totalSize'', JNum (real (length buf))),
                             (''totalChunks'', JNum (real ?m))])])) #
             map (\<lambda>i. ArrayBuffer (take CHUNK_SIZE (drop (i * CHUNK_SIZE) buf))) [0..<?m] @
             [Text (JSON_text (JObj [(''complete'', JBool True)]))]"
    unfolding frames by (simp only: JSON_stringify_def headerMessage_def completeMessage_def)
  show ?thesis
    using r ok wire whole total unfolding cs by auto
qed

theorem sendFile_frames_witness:
  "dataChannel phone = Some \<lparr> readyState = Open, bufferedAmount = 0 \<rparr>
   \<and> (\<exists>r. sendFile fastTransport 0 phone ''image'' ''photo.jpg'' photo = Some r \<and>
          outcome r = Inr () \<and>
          sent (effects r) =
            [Text (JSON_text
               (JObj [(''header'',
                       JObj [(''type'', JStr ''image''),
                             (''filename'', JStr ''photo.jpg''),
                             (''totalSize'', JNum 200000),
                             (''totalChunks'', JNum 4)])])),
             ArrayBuffer (replicate 65536 7), ArrayBuffer (replicate 65536 7),
             ArrayBuffer (replicate 65536 7), ArrayBuffer (replicate 3392 7),
             Text (JSON_text (JObj [(''complete'', JBool True)]))])"
proof -
  have dc: "dataChannel phone = Some \<lparr> readyState = Open, bufferedAmount = 0 \<rparr>"
    by (simp add: phone_def newClient_def)
  have op: "readyState \<lparr> readyState = Open, bufferedAmount = 0 \<rparr> = Open"
    by simp
  have four: "nat \<lceil>real (length photo) / 65536\<rceil> = 4"
    by (simp add: photo_def)
  have upt: "[0..<4] = [0, 1, 2, 3]"
    by (simp add: upt_rec)
  from sendFile_frames [OF dc op fastTransport_drains, of 0 "''image''" "''photo.jpg''" photo]
  obtain r where "sendFile fastTransport 0 phone ''image'' ''photo.jpg'' photo = Some r"
    and "outcome r = Inr ()"
    and "sent (effects r) =
             Text (JSON_text
               (JObj [(''header'',
                       JObj [(''type'', JStr ''image''),
                             (''filename'', JStr ''photo.jpg''),
                             (''totalSize'', JNum (real (length photo))),
                             (''totalChunks'',
                              JNum (real (nat \<lceil>real (length photo) / 65536\<rceil>)))])])) #
             map (\<lambda>i. ArrayBuffer (take 65536 (drop (i * 65536) photo)))
                 [0..<nat \<lceil>real (length photo) / 65536\<rceil>] @
             [Text (JSON_text (JObj [(''complete'', JBool True)]))]"
    by blast
  then show ?thesis
    unfolding four upt using dc by (simp add: photo_def)
qed

text \<open>
  Claim C5: with a progress callback set, the effects of \<^verbatim>\<open>sendFile\<close> are the header, then
  for every index \<open>i\<close> the binary message followed by one call of \<^verbatim>\<open>onProgress\<close> with
  \<open>(i + 1) / totalChunks\<close>, then the completion message. The values passed are strictly
  increasing and positive, and the last one is 1. An empty payload has no chunk, so no
  value is passed at all; the last value exists for every payload that is not empty.
\<close>

theorem sendFile_progress:
  assumes "dataChannel c = Some ch" and "readyState ch = Open"
    and "\<And>t b. \<exists>r. waitForDrain (drain env) t b = Some r"
    and "onProgress c"
  shows "\<exists>r. sendFile env t c ty fname buf = Some r \<and> outcome r = Inr () \<and>
           map blank (effects r) =
             Send (Text (JSON_stringify (headerMessage ty fname (length buf)
                     (nat \<lceil>real (length buf) / 65536\<rceil>)))) 0 #
             concat (map (\<lambda>i. [Send (ArrayBuffer (chunkAt buf (length buf) i)) 0,
                               OnProgress (real (i + 1) / real (nat \<lceil>real (length buf) / 65536\<rceil>))])
                         [0..<nat \<lceil>real (length buf) / 65536\<rceil>]) @
             [Send (Text (JSON_stringify completeMessage)) 0] \<and>
           progress (effects r) =
             map (\<lambda>i. real (i + 1) / real (nat \<lceil>real (length buf) / 65536\<rceil>))
                 [0..<nat \<lceil>real (length buf) / 65536\<rceil>] \<and>
           sorted_wrt (<) (progress (effects r)) \<and>
           (\<forall>p \<in> set (progress (effects r)). 0 < p) \<and>
           (buf \<noteq> [] \<longrightarrow> last (progress (effects r)) = 1)"
proof -
  let ?m = "nat \<lceil>real (length buf) / real CHUNK_SIZE\<rceil>"
  have cs: "real CHUNK_SIZE = 65536" by (simp add: CHUNK_SIZE_def)
  from sendFile_total [OF assms(3) assms(1) assms(2), of t ty fname buf] assms(4)
  obtain r where r: "sendFile env t c ty fname buf = Some r" and ok: "outcome r = Inr ()"
    and eff: "map blank (effects r) =
            Send (Text (JSON_stringify (headerMessage ty fname (length buf) ?m))) 0 #
            concat (map (\<lambda>i. [Send (ArrayBuffer (chunkAt buf (length buf) i)) 0,
                              OnProgress (real (i + 1) / real ?m)])
                        [0..<?m]) @
            [Send (Text (JSON_stringify completeMessage)) 0]"
    by auto
  have "progress (effects r) = progress (map blank (effects r))"
    by (simp add: progress_blank)
  also have "\<dots> = map (\<lambda>i. real (i + 1) / real ?m) [0..<?m]"
    unfolding eff by (simp add: progress_append progress_pieces)
  finally have pr: "progress (effects r) = map (\<lambda>i. real (i + 1) / real ?m) [0..<?m]" .
  have inc: "sorted_wrt (<) (progress (effects r))"
    unfolding pr by (rule fractions_increasing)
  have pos: "\<forall>p \<in> set (progress (effects r)). 0 < p"
  proof
    fix p
    assume "p \<in> set (progress (effects r))"
    then obtain i where i: "i < ?m" and p: "p = real (i + 1) / real ?m"
      unfolding pr by auto
    from i have "0 < real ?m" by (simp only: of_nat_0_less_iff)
    then show "0 < p"
      unfolding p by (intro divide_pos_pos) simp_all
  qed
  have last1: "last (progress (effects r)) = 1" if "buf \<noteq> []"
  proof -
    from that have "0 < ?m" by (rule chunks_positive)
    then show ?thesis unfolding pr by (rule last_fraction)
  qed
  show ?thesis
    using r ok eff pr inc pos last1 unfolding cs by auto
qed

theorem sendFile_progress_witness:
  "dataChannel phone = Some \<lparr> readyState = Open, bufferedAmount = 0 \<rparr> \<and> onProgress phone
   \<and> photo \<noteq> []
   \<and> (\<exists>r. sendFile fastTransport 0 phone ''image'' ''photo.jpg'' photo = Some r \<and>
          outcome r = Inr () \<and>
          progress (effects r) = [1 / 4, 1 / 2, 3 / 4, 1] \<and>
          sorted_wrt (<) (progress (effects r)) \<and>
          (\<forall>p \<in> set (progress (effects r)). 0 < p) \<and>
          last (progress (effects r)) = 1)"
proof -
  have dc: "dataChannel phone = Some \<lparr> readyState = Open, bufferedAmount = 0 \<rparr>"
    by (simp add: phone_def newClient_def)
  have op: "readyState \<lparr> readyState = Open, bufferedAmount = 0 \<rparr> = Open"
    by simp
  have cb: "onProgress phone"
    by (simp add: phone_def newClient_def)
  have ne: "photo \<noteq> []"
    by (simp add: photo_def)
  have four: "nat \<lceil>real (length photo) / 65536\<rceil> = 4"
    by (simp add: photo_def)
  have upt: "[0..<4] = [0, 1, 2, 3]"
    by (simp add: upt_rec)
  from sendFile_progress [OF dc op fastTransport_drains cb, of 0 "''image''" "''photo.jpg''" photo]
  obtain r where "sendFile fastTransport 0 phone ''image'' ''photo.jpg'' photo = Some r"
    and "outcome r = Inr ()"
    and "progress (effects r) =
             map (\<lambda>i. real (i + 1) / real (nat \<lceil>real (length photo) / 65536\<rceil>))
                 [0..<nat \<lceil>real (length photo) / 65536\<rceil>]"
    and "sorted_wrt (<) (progress (effects r))"
    and "\<forall>p \<in> set (progress (effects r)). 0 < p"
    and "photo \<noteq> [] \<longrightarrow> last (progress (effects r)) = 1"
    by blast
  then show ?thesis
    unfolding four upt using dc cb ne by auto
qed

text \<open>
  Claim C7: whenever \<^verbatim>\<open>sendFile\<close> passes a binary message to \<^verbatim>\<open>send\<close>, the gauge
  \<^verbatim>\<open>bufferedAmount\<close> is at most \<open>4 * 65536\<close> at that moment, so it is at most
  \<open>5 * 65536\<close> right after, whatever the size of the payload and however the transport
  drains. While the gauge is above \<open>4 * 65536\<close> the sender waits for one more polling
  interval instead of sending. On an open channel whose polls end, \<^verbatim>\<open>sendFile\<close> returns.
\<close>

theorem sendFile_backpressure:
  "(\<forall>r d g. sendFile env t c ty fname buf = Some r \<longrightarrow>
        Send (ArrayBuffer d) g \<in> set (effects r) \<longrightarrow>
        g \<le> 4 * 65536 \<and> g + length d \<le> 5 * 65536)
   \<and> (\<forall>t b. 4 * 65536 < b \<longrightarrow>
         waitForDrain (drain env) t b = waitForDrain (drain env) (Suc t) (drain env t b))
   \<and> (\<forall>ch. dataChannel c = Some ch \<longrightarrow> readyState ch = Open \<longrightarrow>
         (\<forall>t b. \<exists>r. waitForDrain (drain env) t b = Some r) \<longrightarrow>
         (\<exists>r. sendFile env t c ty fname buf = Some r \<and> outcome r = Inr ()))"
proof (intro conjI allI impI)
  fix r d g
  assume "sendFile env t c ty fname buf = Some r" and "Send (ArrayBuffer d) g \<in> set (effects r)"
  then have "g \<le> CHUNK_SIZE * 4 \<and> length d \<le> CHUNK_SIZE"
    by (rule sendFile_gauge)
  then show "g \<le> 4 * 65536" and "g + length d \<le> 5 * 65536"
    by (simp_all add: CHUNK_SIZE_def)
next
  fix t b :: nat
  assume "4 * 65536 < b"
  then have "CHUNK_SIZE * 4 < b"
    by (simp add: CHUNK_SIZE_def)
  then show "waitForDrain (drain env) t b = waitForDrain (drain env) (Suc t) (drain env t b)"
    by (rule waitForDrain_high)
next
  fix ch
  assume "dataChannel c = Some ch" and "readyState ch = Open"
    and "\<forall>t b. \<exists>r. waitForDrain (drain env) t b = Some r"
  then show "\<exists>r. sendFile env t c ty fname buf = Some r \<and> outcome r = Inr ()"
    using sendFile_total [of env c ch t ty fname buf] by blast
qed

theorem sendFile_backpressure_witness:
  "(\<exists>r. sendFile slowTransport 0 congestedPhone ''image'' ''photo.jpg'' photo = Some r \<and>
        outcome r = Inr () \<and> clock r = 3 \<and>
        Send (ArrayBuffer (replicate 65536 7)) 231172 \<in> set (effects r))
   \<and> (231172 :: nat) \<le> 4 * 65536
   \<and> 231172 + length (replicate 65536 (7 :: 8 word)) \<le> 5 * 65536
   \<and> (4 :: nat) * 65536 < 300100
   \<and> waitForDrain (drain slowTransport) 0 300100 = Some (1, 200100)
   \<and> dataChannel congestedPhone = Some \<lparr> readyState = Open, bufferedAmount = 300000 \<rparr>"
proof -
  have dc: "dataChannel congestedPhone = Some \<lparr> readyState = Open, bufferedAmount = 300000 \<rparr>"
    by (simp add: congestedPhone_def)
  have op: "readyState \<lparr> readyState = Open, bufferedAmount = 300000 \<rparr> = Open"
    by simp
  have live: "\<forall>t b. \<exists>r. waitForDrain (drain slowTransport) t b = Some r"
    using slowTransport_drains by blast
  obtain r where r: "sendFile slowTransport 0 congestedPhone ''image'' ''photo.jpg'' photo = Some r"
    and ok: "outcome r = Inr ()" and three: "clock r = 3"
    and sent: "Send (ArrayBuffer (replicate 65536 7)) 231172 \<in> set (effects r)"
    by (simp add: congested_run)
  have over: "(4 :: nat) * 65536 < 300100"
    by simp
  note bp = sendFile_backpressure [of slowTransport 0 congestedPhone "''image''" "''photo.jpg''" photo]
  from bp have bound: "(231172 :: nat) \<le> 4 * 65536
      \<and> 231172 + length (replicate 65536 (7 :: 8 word)) \<le> 5 * 65536"
    using r sent by blast
  from bp over have "waitForDrain (drain slowTransport) 0 300100 =
      waitForDrain (drain slowTransport) (Suc 0) (drain slowTransport 0 300100)"
    by blast
  also have "\<dots> = Some (1, 200100)"
    by (simp add: slowTransport_def waitForDrain_low CHUNK_SIZE_def)
  finally have wait: "waitForDrain (drain slowTransport) 0 300100 = Some (1, 200100)" .
  from bound wait over show ?thesis
    using r ok three sent dc by blast
qed

section \<open>The round trip\<close>

lemma receive_append:
  "receive c (xs @ ys) =
     (case receive c xs of (es, c') \<Rightarrow> (case receive c' ys of (es', c'') \<Rightarrow> (es @ es', c'')))"
  by (induction xs arbitrary: c) (auto split: prod.splits)

lemma received_append: "received (xs @ ys) = received xs @ received ys"
  by (induction xs rule: received.induct) simp_all

lemma handleMessage_chunk:
  "pendingFile c = Some p \<Longrightarrow>
   handleMessage c (ArrayBuffer b) =
     ((if onProgress c
       then [OnProgressRatio (receivedSize p + length b) (totalSize p)] else []),
      c\<lparr>pendingFile := Some (p\<lparr>chunks := chunks p @ [b],
                                 receivedSize := receivedSize p + length b\<rparr>)\<rparr>)"
  by (simp add: handleMessage_def handleMessage_body_def Let_def)

lemma receive_chunks:
  "pendingFile c = Some p \<Longrightarrow>
   \<exists>es. receive c (map ArrayBuffer bs) =
          (es, c\<lparr>pendingFile := Some (p\<lparr>chunks := chunks p @ bs,
                                        receivedSize := receivedSize p + length (concat bs)\<rparr>)\<rparr>)
        \<and> received es = []"
proof (induction bs arbitrary: c p)
  case Nil
  then have "c\<lparr>pendingFile := Some (p\<lparr>chunks := chunks p, receivedSize := receivedSize p\<rparr>)\<rparr> = c"
    by (cases c) simp
  then show ?case by simp
next
  case (Cons b bs)
  let ?p' = "p\<lparr>chunks := chunks p @ [b], receivedSize := receivedSize p + length b\<rparr>"
  let ?c' = "c\<lparr>pendingFile := Some ?p'\<rparr>"
  have "pendingFile ?c' = Some ?p'" by simp
  from Cons.IH [OF this] obtain es where
    es: "receive ?c' (map ArrayBuffer bs) =
          (es, ?c'\<lparr>pendingFile := Some (?p'\<lparr>chunks := chunks ?p' @ bs,
                                        receivedSize := receivedSize ?p' + length (concat bs)\<rparr>)\<rparr>)"
    and none: "received es = []"
    by blast
  show ?case
    using Cons.prems es none
    by (simp add: handleMessage_chunk received_append add.assoc)
qed

text \<open>
  Claim C1: the messages that \<^verbatim>\<open>sendFile\<close> passes to \<^verbatim>\<open>send\<close> for a payload, a kind and a
  file name, handled in order by a receiver with a received-file callback, make exactly
  one call of \<^verbatim>\<open>onFileReceived\<close>: with that kind, that file name and a blob whose bytes
  are the payload. The receiver may start in any state; afterwards no file is pending.
\<close>

theorem round_trip:
  assumes "dataChannel s = Some ch" and "readyState ch = Open"
    and "\<And>t b. \<exists>r. waitForDrain (drain env) t b = Some r"
    and "onFileReceived rc"
  shows "\<exists>r es. sendFile env t s kind fname buf = Some r \<and> outcome r = Inr () \<and>
           receive rc (sent (effects r)) = (es, rc\<lparr>pendingFile := None\<rparr>) \<and>
           received es =
             [(Some (JStr kind), Some (JStr fname),
               \<lparr> content = buf,
                 mimeType = (if kind = ''pdf'' then ''application/pdf''
                             else ''application/octet-stream'') \<rparr>)]"
proof -
  let ?m = "nat \<lceil>real (length buf) / real CHUNK_SIZE\<rceil>"
  let ?hdr = "Text (JSON_stringify (headerMessage kind fname (length buf) ?m))"
  let ?fin = "Text (JSON_stringify completeMessage)"
  let ?bs = "map (chunkAt buf (length buf)) [0..<?m]"
  from sendFile_total [OF assms(3) assms(1) assms(2), of t kind fname buf]
  obtain r where r: "sendFile env t s kind fname buf = Some r" and ok: "outcome r = Inr ()"
    and eff: "map blank (effects r) =
            Send ?hdr 0 #
            concat (map (\<lambda>k. Send (ArrayBuffer (chunkAt buf (length buf) k)) 0 #
                             (if onProgress s then [OnProgress (real (k + 1) / real ?m)] else []))
                        [0..<?m]) @
            [Send ?fin 0]"
    by auto
  have "sent (effects r) = sent (map blank (effects r))"
    by (simp add: sent_blank)
  also have "\<dots> = ?hdr # map ArrayBuffer ?bs @ [?fin]"
    unfolding eff by (simp add: sent_append sent_pieces comp_def)
  finally have frames: "sent (effects r) = [?hdr] @ map ArrayBuffer ?bs @ [?fin]"
    by simp
  let ?p0 = "\<lparr> type = Some (JStr kind), filename = Some (JStr fname),
               totalSize = Some (JNum (real (length buf))),
               totalChunks = Some (JNum (real ?m)),
               chunks = [], receivedSize = 0 \<rparr>"
  let ?c1 = "rc\<lparr>pendingFile := Some ?p0\<rparr>"
  let ?p1 = "?p0\<lparr>chunks := chunks ?p0 @ ?bs,
                 receivedSize := receivedSize ?p0 + length (concat ?bs)\<rparr>"
  let ?c2 = "?c1\<lparr>pendingFile := Some ?p1\<rparr>"
  have h: "receive rc [?hdr] = ([], ?c1)"
    by (simp add: handleMessage_header)
  have "pendingFile ?c1 = Some ?p0" by simp
  from receive_chunks [OF this, of ?bs]
  obtain es where es: "receive ?c1 (map ArrayBuffer ?bs) = (es, ?c2)" and none: "received es = []"
    by blast
  have whole: "concat ?bs = buf" by (rule concat_chunks)
  let ?blob = "\<lparr> content = buf,
                 mimeType = (if kind = ''pdf'' then ''application/pdf''
                             else ''application/octet-stream'') \<rparr>"
  have f: "receive ?c2 [?fin] =
             ([Download (Some (JStr fname)) ?blob,
               OnFileReceived (Some (JStr kind)) (Some (JStr fname)) ?blob],
              rc\<lparr>pendingFile := None\<rparr>)"
    using assms(4) whole
    by (simp add: handleMessage_complete finalizeFile_def newBlob_def Let_def)
  have "receive rc (sent (effects r)) =
          (es @ [Download (Some (JStr fname)) ?blob,
                 OnFileReceived (Some (JStr kind)) (Some (JStr fname)) ?blob],
           rc\<lparr>pendingFile := None\<rparr>)"
    by (simp only: frames receive_append h es f prod.case append_Nil)
  moreover have "received (es @ [Download (Some (JStr fname)) ?blob,
                 OnFileReceived (Some (JStr kind)) (Some (JStr fname)) ?blob]) =
                 [(Some (JStr kind), Some (JStr fname), ?blob)]"
    by (simp add: received_append none)
  ultimately show ?thesis
    using r ok by blast
qed

theorem round_trip_witness:
  "dataChannel phone = Some \<lparr> readyState = Open, bufferedAmount = 0 \<rparr> \<and> onFileReceived board
   \<and> (\<exists>r es. sendFile fastTransport 0 phone ''image'' ''photo.jpg'' photo = Some r \<and>
          outcome r = Inr () \<and>
          receive board (sent (effects r)) = (es, board\<lparr>pendingFile := None\<rparr>) \<and>
          received es =
            [(Some (JStr ''image''), Some (JStr ''photo.jpg''),
              \<lparr> content = photo, mimeType = ''application/octet-stream'' \<rparr>)])"
proof -
  have dc: "dataChannel phone = Some \<lparr> readyState = Open, bufferedAmount = 0 \<rparr>"
    by (simp add: phone_def newClient_def)
  have op: "readyState \<lparr> readyState = Open, bufferedAmount = 0 \<rparr> = Open"
    by simp
  have rc: "onFileReceived board"
    by (simp add: board_def newClient_def)
  from round_trip [OF dc op fastTransport_drains rc, of 0 "''image''" "''photo.jpg''" photo]
  show ?thesis
    using dc rc by simp
qed

end
